theory Spec2Isabelle
  imports
    Main
    "HOL-Library.Char_ord"
    "HOL-Library.List_Lexorder"
    "HOL-Library.Multiset"
    "HOL-Library.Product_Lexorder"
begin

section \<open>Strings of the Python source\<close>

text \<open>
  A Python \<open>str\<close> is a sequence of code points. It is modelled as \<open>string\<close>, a
  character being a code point below 256; \<open>length\<close> is Python's \<open>len\<close>, and the
  order of \<open>HOL-Library.Char_ord\<close> and \<open>HOL-Library.List_Lexorder\<close> is Python's
  comparison of strings (code point by code point, a proper prefix being smaller).
\<close>

text \<open>
  \<open>str.isspace\<close> for one character: the code points 9 to 13, 28 to 32, 133 and 160
  are the white space of Python below 256. \<open>strip\<close> and \<open>rsplit(None, ...)\<close> use this
  class.
\<close>

definition isspace :: "char \<Rightarrow> bool" where
  "isspace c =
     (let n = (of_char c :: nat)
      in (9 \<le> n \<and> n \<le> 13) \<or> (28 \<le> n \<and> n \<le> 32) \<or> n = 133 \<or> n = 160)"

definition lstrip :: "string \<Rightarrow> string" where
  "lstrip s = dropWhile isspace s"

definition rstrip :: "string \<Rightarrow> string" where
  "rstrip s = rev (dropWhile isspace (rev s))"

text \<open>\<open>s.strip()\<close>\<close>

definition strip :: "string \<Rightarrow> string" where
  "strip s = rstrip (lstrip s)"

text \<open>\<open>s.rstrip('/')\<close>\<close>

definition rstrip_slash :: "string \<Rightarrow> string" where
  "rstrip_slash s = rev (dropWhile (\<lambda>c. c = CHR ''/'') (rev s))"

text \<open>\<open>s.startswith(p)\<close>\<close>

definition startswith :: "string \<Rightarrow> string \<Rightarrow> bool" where
  "startswith s p = (take (length p) s = p)"

text \<open>
  \<open>s.rsplit(None, maxsplit)\<close> scans from the right: it skips white space, cuts the
  run of other characters before it, and goes on until \<open>maxsplit\<close> cuts are made; what
  is left then, without its trailing white space, is the first part when it is not empty.
  \<open>rsplit_rev\<close> works on the reversed string and lists the parts from the right.
\<close>

fun rsplit_rev :: "nat \<Rightarrow> string \<Rightarrow> string list" where
  "rsplit_rev 0 rs =
     (let r = dropWhile isspace rs in if r = [] then [] else [rev r])"
| "rsplit_rev (Suc m) rs =
     (let r = dropWhile isspace rs
      in if r = [] then []
         else rev (takeWhile (\<lambda>c. \<not> isspace c) r)
                # rsplit_rev m (dropWhile (\<lambda>c. \<not> isspace c) r))"

definition rsplit_ws :: "string \<Rightarrow> nat \<Rightarrow> string list" where
  "rsplit_ws s maxsplit = rev (rsplit_rev maxsplit (rev s))"

text \<open>
  \<open>s.split(sep)\<close> for a separator of one character: every occurrence cuts, empty
  pieces are kept, and the empty string gives one empty piece. \<open>acc\<close> holds the
  current piece, reversed.
\<close>

fun split_acc :: "char \<Rightarrow> string \<Rightarrow> string \<Rightarrow> string list" where
  "split_acc sep acc [] = [rev acc]"
| "split_acc sep acc (c # cs) =
     (if c = sep then rev acc # split_acc sep [] cs else split_acc sep (c # acc) cs)"

definition split_on :: "char \<Rightarrow> string \<Rightarrow> string list" where
  "split_on sep s = split_acc sep [] s"

text \<open>\<open>sep.join(parts)\<close>\<close>

fun join :: "string \<Rightarrow> string list \<Rightarrow> string" where
  "join sep [] = []"
| "join sep [p] = p"
| "join sep (p # q # ps) = p @ sep @ join sep (q # ps)"

text \<open>\<open>s.ljust(w)\<close> and \<open>s.rjust(w)\<close>, padding with spaces, never cutting.\<close>

definition ljust :: "nat \<Rightarrow> string \<Rightarrow> string" where
  "ljust w s = s @ replicate (w - length s) CHR '' ''"

definition rjust :: "nat \<Rightarrow> string \<Rightarrow> string" where
  "rjust w s = replicate (w - length s) CHR '' '' @ s"

text \<open>\<open>str(n)\<close> for an integer: decimal digits, a minus sign when negative.\<close>

definition digit_char :: "nat \<Rightarrow> char" where
  "digit_char d = char_of (48 + d)"

fun str_nat :: "nat \<Rightarrow> string" where
  "str_nat n = (if n < 10 then [digit_char n] else str_nat (n div 10) @ [digit_char (n mod 10)])"

declare str_nat.simps [simp del]

definition str_int :: "int \<Rightarrow> string" where
  "str_int i = (if i < 0 then CHR ''-'' # str_nat (nat (- i)) else str_nat (nat i))"

section \<open>Errors\<close>

text \<open>
  The exceptions that the program meets. \<open>RemoteDisconnected\<close> is
  \<open>http.client.RemoteDisconnected\<close>, raised by \<open>urlopen\<close> when the server closes the
  connection without a response; it is a \<open>ConnectionResetError\<close>, neither an
  \<open>HTTPError\<close> nor a \<open>URLError\<close>.
\<close>

datatype py_error = IndexError | ValueError | RuntimeError string | RemoteDisconnected

text \<open>\<open>xs[i]\<close> for an index that is not negative.\<close>

definition py_index :: "'a list \<Rightarrow> nat \<Rightarrow> py_error + 'a" where
  "py_index xs i = (if i < length xs then Inr (xs ! i) else Inl IndexError)"

section \<open>The tally\<close>

text \<open>
  A \<open>Counter\<close> is a dictionary from package names to integers. A dictionary keeps
  its keys in the order of their first insertion, which \<open>items()\<close> shows, so it is an
  association list; a key is stored once.
\<close>

type_synonym counter = "(string \<times> int) list"

text \<open>\<open>counts[k]\<close>: a missing key of a \<open>Counter\<close> reads as 0.\<close>

definition count_of :: "counter \<Rightarrow> string \<Rightarrow> int" where
  "count_of counts k = (case map_of counts k of None \<Rightarrow> 0 | Some v \<Rightarrow> v)"

text \<open>
  One step of \<open>Counter.update\<close>: \<open>self[elem] = self.get(elem, 0) + 1\<close>. A key that is
  present keeps its place, a new key goes to the end.
\<close>

fun counter_incr :: "counter \<Rightarrow> string \<Rightarrow> counter" where
  "counter_incr [] k = [(k, 1)]"
| "counter_incr ((k', v) # kvs) k =
     (if k' = k then (k', v + 1) # kvs else (k', v) # counter_incr kvs k)"

text \<open>\<open>counts.update(pkgs)\<close>\<close>

definition counter_update :: "counter \<Rightarrow> string list \<Rightarrow> counter" where
  "counter_update counts pkgs = foldl counter_incr counts pkgs"

section \<open>parse_contents_lines\<close>

text \<open>
  What the body of the loop does with one line: \<open>Skip\<close> is a \<open>continue\<close>,
  \<open>Emit pkgs\<close> reaches \<open>counts.update(pkgs)\<close>, \<open>Raise e\<close> is an exception that the
  \<open>except (ValueError, IndexError)\<close> clause does not catch.
\<close>

datatype line_outcome = Skip | Emit "string list" | Raise py_error

text \<open>\<open>[pkg.strip() for pkg in pkg_field.split(",") if pkg.strip()]\<close>\<close>

definition split_packages :: "string \<Rightarrow> string list" where
  "split_packages pkg_field =
     map strip (filter (\<lambda>pkg. strip pkg \<noteq> []) (split_on CHR '','' pkg_field))"

definition parse_line :: "string \<Rightarrow> line_outcome" where
  "parse_line data =
     (let line = strip data
      in if line = [] \<or> startswith line ''#'' then Skip
         else case py_index (rsplit_ws line 1) 1 of
                Inl IndexError \<Rightarrow> Skip
              | Inl ValueError \<Rightarrow> Skip
              | Inl e \<Rightarrow> Raise e
              | Inr pkg_field \<Rightarrow> Emit (split_packages pkg_field))"

text \<open>One iteration of the loop, on the running tally.\<close>

definition tally_line :: "counter \<Rightarrow> string \<Rightarrow> py_error + counter" where
  "tally_line counts data =
     (case parse_line data of
        Skip \<Rightarrow> Inr counts
      | Emit pkgs \<Rightarrow> Inr (counter_update counts pkgs)
      | Raise e \<Rightarrow> Inl e)"

fun parse_loop :: "counter \<Rightarrow> string list \<Rightarrow> py_error + counter" where
  "parse_loop counts [] = Inr counts"
| "parse_loop counts (data # rest) =
     (case tally_line counts data of
        Inl e \<Rightarrow> Inl e
      | Inr counts' \<Rightarrow> parse_loop counts' rest)"

definition parse_contents_lines :: "string list \<Rightarrow> py_error + counter" where
  "parse_contents_lines lines = parse_loop [] lines"

section \<open>top_n_packages\<close>

text \<open>
  \<open>xs[:n]\<close>: the first \<open>n\<close> elements, and for a negative \<open>n\<close> all but the last
  \<open>-n\<close>.
\<close>

definition slice_to :: "'a list \<Rightarrow> int \<Rightarrow> 'a list" where
  "slice_to xs n =
     (if n < 0 then take (nat (int (length xs) + n)) xs else take (nat n) xs)"

text \<open>The sort key \<open>lambda kv: (-kv[1], kv[0])\<close>; Python compares the pairs lexicographically.\<close>

definition rank_key :: "string \<times> int \<Rightarrow> int \<times> string" where
  "rank_key kv = (- snd kv, fst kv)"

text \<open>\<open>sorted\<close> is stable, as \<open>sort_key\<close> is.\<close>

definition top_n_packages :: "counter \<Rightarrow> int \<Rightarrow> (string \<times> int) list" where
  "top_n_packages counts n = slice_to (sort_key rank_key counts) n"

section \<open>format_table\<close>

text \<open>\<open>max\<close> over a sequence of lengths; on an empty sequence Python raises \<open>ValueError\<close>.\<close>

fun py_max :: "nat list \<Rightarrow> py_error + nat" where
  "py_max [] = Inl ValueError"
| "py_max (x # xs) = Inr (fold max xs x)"

definition newline :: char where
  "newline = CHR 0x0A"

text \<open>The three kinds of lines that \<open>format_table\<close> appends to \<open>lines\<close>.\<close>

definition header_line :: string where
  "header_line = [newline] @ ljust 30 ''Package'' @ ''  '' @ rjust 20 ''File Count''"

definition rule_line :: "nat \<Rightarrow> string" where
  "rule_line name_width = replicate name_width CHR ''-'' @ ''------------''"

definition row_line :: "nat \<Rightarrow> nat \<Rightarrow> string \<times> int \<Rightarrow> string" where
  "row_line name_width count_width row =
     ljust name_width (fst row) @ ''  '' @ rjust count_width (str_int (snd row))"

definition table_lines :: "nat \<Rightarrow> nat \<Rightarrow> (string \<times> int) list \<Rightarrow> string list" where
  "table_lines name_width count_width rows =
     [header_line, rule_line name_width] @ map (row_line name_width count_width) rows"

definition format_table :: "(string \<times> int) list \<Rightarrow> py_error + string" where
  "format_table rows =
     (if rows = [] then Inr ''(no data)''
      else case py_max (map (\<lambda>row. length (fst row)) rows) of
             Inl e \<Rightarrow> Inl e
           | Inr name_width \<Rightarrow>
               (case py_max (map (\<lambda>row. length (str_int (snd row))) rows) of
                  Inl e \<Rightarrow> Inl e
                | Inr count_width \<Rightarrow>
                    Inr (join [newline] (table_lines name_width count_width rows) @ [newline])))"

section \<open>open_remote_contents_stream\<close>

definition build_contents_urls :: "string \<Rightarrow> string \<Rightarrow> string \<Rightarrow> string \<Rightarrow> string \<times> string" where
  "build_contents_urls arch mirror suite component =
     (let base = rstrip_slash mirror @ ''/dists/'' @ suite @ ''/'' @ component;
          gz = base @ ''/Contents-'' @ arch @ ''.gz'';
          xz = base @ ''/Contents-'' @ arch @ ''.xz''
      in (gz, xz))"

text \<open>
  The network is a parameter: what \<open>Request\<close> and \<open>urlopen\<close> do for a URL. They
  answer with a response, raise \<open>HTTPError\<close> with a status code, raise \<open>URLError\<close>, or
  raise an exception of another class (\<open>Uncaught\<close>), for which \<open>try_open_url\<close> has no
  \<open>except\<close> clause.
\<close>

datatype 'r url_result = Response 'r | HTTPError nat | URLError | Uncaught py_error

text \<open>
  \<open>try_open_url\<close> also adds the URL to the requests made so far, so that the order
  and the number of attempts can be read off.
\<close>

definition try_open_url ::
  "(string \<Rightarrow> 'r url_result) \<Rightarrow> string list \<Rightarrow> string \<Rightarrow> (py_error + 'r option) \<times> string list" where
  "try_open_url net requests url =
     (case net url of
        Response r \<Rightarrow> Inr (Some r)
      | HTTPError code \<Rightarrow> (if code = 404 then Inr None else Inr None)
      | URLError \<Rightarrow> Inr None
      | Uncaught e \<Rightarrow> Inl e,
      requests @ [url])"

text \<open>The text stream returned: a \<open>TextIOWrapper\<close> over a gzip or an LZMA reader of the response.\<close>

datatype 'r text_stream = GzipText 'r | LzmaText 'r

definition not_found_message :: "string \<Rightarrow> string \<Rightarrow> string \<Rightarrow> string" where
  "not_found_message arch gz_url xz_url =
     ''Could not find Contents file for '' @ [CHR 0x27] @ arch @ [CHR 0x27] @ ''. Tried:''
       @ [newline] @ ''  '' @ gz_url @ [newline] @ ''  '' @ xz_url"

definition open_remote_contents_stream ::
  "(string \<Rightarrow> 'r url_result) \<Rightarrow> string \<Rightarrow> string \<Rightarrow> string \<Rightarrow> string
     \<Rightarrow> (py_error + 'r text_stream \<times> string) \<times> string list" where
  "open_remote_contents_stream net arch mirror suite component =
     (let (gz_url, xz_url) = build_contents_urls arch mirror suite component;
          (resp, requests) = try_open_url net [] gz_url
      in case resp of
           Inl e \<Rightarrow> (Inl e, requests)
         | Inr (Some r) \<Rightarrow> (Inr (GzipText r, gz_url), requests)
         | Inr None \<Rightarrow>
             (let (resp2, requests2) = try_open_url net requests xz_url
              in case resp2 of
                   Inl e \<Rightarrow> (Inl e, requests2)
                 | Inr (Some r) \<Rightarrow> (Inr (LzmaText r, xz_url), requests2)
                 | Inr None \<Rightarrow> (Inl (RuntimeError (not_found_message arch gz_url xz_url)), requests2)))"

section \<open>The specification's vocabulary\<close>

text \<open>The seven lines of the round-trip scenario.\<close>

definition scenario_lines :: "string list" where
  "scenario_lines =
     [''usr/bin/foo pkg-foo'',
      ''usr/share/doc/bar pkg-bar,pkg-baz,pkg-foo'',
      ''/var/lib/thing pkg-baz'',
      ''usr/bin/qux pkg-qux'',
      ''usr/bin/foo3 pkg-foo'',
      ''usr/share/doc/bar2 pkg-bar,pkg-baz,pkg-foo'',
      ''/var/lib/thing2 pkg-baz'']"

text \<open>
  The ranking order in the specification's words: a row stands before another when its
  count is larger, or the counts are equal and its name is not larger.
\<close>

definition row_before :: "string \<times> int \<Rightarrow> string \<times> int \<Rightarrow> bool" where
  "row_before a b = (snd b < snd a \<or> (snd a = snd b \<and> fst a \<le> fst b))"

text \<open>
  The trailing white-space-delimited field of a line in the specification's words: the
  characters after the last run of white space, trailing white space apart.
\<close>

definition trailing_field :: "string \<Rightarrow> string" where
  "trailing_field data = rev (takeWhile (\<lambda>c. \<not> isspace c) (dropWhile isspace (rev data)))"

text \<open>
  The lines that the specification says are skipped: the trimmed line is empty, or starts
  with \<open>#\<close>, or \<open>rsplit\<close> on white space with one split gives fewer than two parts.
\<close>

definition skip_condition :: "string \<Rightarrow> bool" where
  "skip_condition data =
     (strip data = [] \<or> startswith (strip data) ''#'' \<or> length (rsplit_ws (strip data) 1) < 2)"

text \<open>The package names that a line adds to the tally, none when the line is skipped.\<close>

definition emitted :: "string \<Rightarrow> string list" where
  "emitted data = (case parse_line data of Emit pkgs \<Rightarrow> pkgs | _ \<Rightarrow> [])"

text \<open>
  A candidate location is unavailable, in the specification's words, when its retrieval
  fails, whatever the failure: not found, another HTTP status, a network or transport
  error. Only a response makes it available.
\<close>

definition unavailable :: "'r url_result \<Rightarrow> bool" where
  "unavailable res = (case res of Response r \<Rightarrow> False | _ \<Rightarrow> True)"

section \<open>White space, trimming and the trailing field\<close>

lemma last_dropWhile: "dropWhile P xs \<noteq> [] \<Longrightarrow> last (dropWhile P xs) = last xs"
  by (induction xs) auto

lemma rev_strip: "rev (strip data) = dropWhile isspace (rev (dropWhile isspace data))"
  by (simp add: strip_def rstrip_def lstrip_def)

lemma strip_last_nonspace: "strip data \<noteq> [] \<Longrightarrow> \<not> isspace (hd (rev (strip data)))"
  unfolding rev_strip using hd_dropWhile[of isspace "rev (dropWhile isspace data)"]
  by (simp add: strip_def rstrip_def lstrip_def)

lemma strip_hd_nonspace:
  assumes "strip data \<noteq> []"
  shows "\<not> isspace (hd (strip data))"
proof -
  let ?body = "dropWhile isspace data"
  have ne: "dropWhile isspace (rev ?body) \<noteq> []"
    using assms by (simp add: strip_def rstrip_def lstrip_def)
  have body: "?body \<noteq> []"
  proof
    assume "?body = []"
    then have "dropWhile isspace (rev ?body) = []" by (simp only: rev.simps dropWhile.simps)
    with ne show False by contradiction
  qed
  have "hd (strip data) = last (rev (strip data))"
    using assms by (simp add: last_rev)
  also have "\<dots> = last (rev ?body)"
    unfolding rev_strip using ne by (rule last_dropWhile)
  also have "\<dots> = hd ?body"
    using body by (simp add: last_rev)
  finally show ?thesis
    using hd_dropWhile[OF body] by simp
qed

lemma strip_empty_iff: "strip data = [] \<longleftrightarrow> (\<forall>c \<in> set data. isspace c)"
proof
  assume "strip data = []"
  then have "dropWhile isspace (rev (dropWhile isspace data)) = []"
    by (simp add: strip_def rstrip_def lstrip_def)
  then have "\<forall>c \<in> set (dropWhile isspace data). isspace c"
    by (simp add: dropWhile_eq_Nil_conv)
  then have "dropWhile isspace data = []"
    using hd_dropWhile[of isspace data] hd_in_set[of "dropWhile isspace data"] by blast
  then show "\<forall>c \<in> set data. isspace c"
    by (simp add: dropWhile_eq_Nil_conv)
next
  assume "\<forall>c \<in> set data. isspace c"
  then have "dropWhile isspace data = []" by (simp add: dropWhile_eq_Nil_conv)
  then show "strip data = []"
    by (simp only: strip_def rstrip_def lstrip_def rev.simps dropWhile.simps)
qed

lemma takeWhile_not_all: "\<forall>y \<in> set ys. P y \<Longrightarrow> takeWhile (\<lambda>c. \<not> P c) (xs @ ys) = takeWhile (\<lambda>c. \<not> P c) xs"
proof (induction xs)
  case Nil
  then show ?case by (cases ys) simp_all
next
  case (Cons a xs)
  then show ?case by simp
qed

lemma takeWhile_dropWhile_append:
  "\<forall>y \<in> set ys. P y \<Longrightarrow>
     takeWhile (\<lambda>c. \<not> P c) (dropWhile P (xs @ ys)) = takeWhile (\<lambda>c. \<not> P c) (dropWhile P xs)"
proof (induction xs)
  case Nil
  then have d: "dropWhile P ys = []" by simp
  show ?case unfolding append_Nil d by simp
next
  case (Cons a xs)
  show ?case
  proof (cases "P a")
    case True
    with Cons show ?thesis by simp
  next
    case False
    with takeWhile_not_all[OF Cons.prems, of xs] show ?thesis by simp
  qed
qed

lemma trailing_field_strip:
  "trailing_field data = rev (takeWhile (\<lambda>c. \<not> isspace c) (rev (strip data)))"
proof -
  have ws: "\<forall>y \<in> set (rev (takeWhile isspace data)). isspace y"
    by (auto dest: set_takeWhileD)
  have "rev data = rev (dropWhile isspace data) @ rev (takeWhile isspace data)"
    by (simp flip: rev_append)
  then have "trailing_field data =
      rev (takeWhile (\<lambda>c. \<not> isspace c)
        (dropWhile isspace (rev (dropWhile isspace data) @ rev (takeWhile isspace data))))"
    by (simp only: trailing_field_def)
  also have "\<dots> = rev (takeWhile (\<lambda>c. \<not> isspace c) (dropWhile isspace (rev (dropWhile isspace data))))"
    by (simp only: takeWhile_dropWhile_append[OF ws])
  finally show ?thesis
    by (simp only: rev_strip)
qed

section \<open>The parser on one line\<close>

text \<open>
  With one split, \<open>rsplit\<close> on a trimmed line that is not empty gives the trailing
  field alone when the line holds no white space, and the rest and the trailing field
  otherwise.
\<close>

lemma rsplit_ws_stripped:
  assumes ne: "strip data \<noteq> []"
  shows "rsplit_ws (strip data) 1 =
     (if \<forall>c \<in> set (strip data). \<not> isspace c then [trailing_field data]
      else [rev (dropWhile isspace (dropWhile (\<lambda>c. \<not> isspace c) (rev (strip data)))),
            trailing_field data])"
proof -
  let ?r = "rev (strip data)"
  let ?rest = "dropWhile (\<lambda>c. \<not> isspace c) ?r"
  have rne: "?r \<noteq> []" using ne by simp
  have "\<not> isspace (hd ?r)" using ne by (rule strip_last_nonspace)
  then have dw: "dropWhile isspace ?r = ?r"
    using rne by (cases ?r) auto
  have rest: "dropWhile isspace ?rest \<noteq> []" if "?rest \<noteq> []"
  proof -
    have "last ?rest = last ?r" using that by (rule last_dropWhile)
    also have "\<dots> = hd (strip data)" using ne by (simp add: last_rev)
    finally have "\<not> isspace (last ?rest)" using strip_hd_nonspace[OF ne] by simp
    moreover have "last ?rest \<in> set ?rest" using that by simp
    ultimately show ?thesis by (auto simp: dropWhile_eq_Nil_conv)
  qed
  have r0: "rsplit_rev 0 ?rest = (if ?rest = [] then [] else [rev (dropWhile isspace ?rest)])"
  proof (cases "?rest = []")
    case True
    then show ?thesis by (simp only: rsplit_rev.simps Let_def dropWhile.simps if_True)
  next
    case False
    then have "dropWhile isspace ?rest \<noteq> []" by (rule rest)
    with False show ?thesis by (simp only: rsplit_rev.simps Let_def if_False)
  qed
  have r1: "rsplit_rev (Suc 0) ?r = rev (takeWhile (\<lambda>c. \<not> isspace c) ?r) # rsplit_rev 0 ?rest"
    using rne by (simp only: rsplit_rev.simps Let_def dw if_False)
  have iff: "?rest = [] \<longleftrightarrow> (\<forall>c \<in> set (strip data). \<not> isspace c)"
    by (simp add: dropWhile_eq_Nil_conv)
  have "rsplit_ws (strip data) 1 =
      (if ?rest = [] then [trailing_field data]
       else [rev (dropWhile isspace ?rest), trailing_field data])"
    unfolding rsplit_ws_def One_nat_def r1 r0 trailing_field_strip by simp
  then show ?thesis
    unfolding iff .
qed

lemma skip_condition_iff:
  "skip_condition data \<longleftrightarrow>
     strip data = [] \<or> startswith (strip data) ''#'' \<or> (\<forall>c \<in> set (strip data). \<not> isspace c)"
  using rsplit_ws_stripped[of data]
  by (cases "strip data = []") (auto simp: skip_condition_def)

lemma parse_line_cases:
  "parse_line data =
     (if skip_condition data then Skip else Emit (split_packages (trailing_field data)))"
proof (cases "strip data = []")
  case True
  then show ?thesis by (simp add: parse_line_def skip_condition_def)
next
  case False
  show ?thesis
    using False rsplit_ws_stripped[OF False]
    by (auto simp: parse_line_def skip_condition_def py_index_def Let_def)
qed

section \<open>Counting\<close>

lemma count_of_counter_incr:
  "count_of (counter_incr counts k) p = count_of counts p + (if p = k then 1 else 0)"
  by (induction counts k rule: counter_incr.induct) (auto simp: count_of_def)

lemma count_of_counter_update:
  "count_of (counter_update counts pkgs) p = count_of counts p + int (count_list pkgs p)"
  unfolding counter_update_def
  by (induction pkgs arbitrary: counts) (auto simp: count_of_counter_incr)

lemma counter_incr_positive:
  "\<forall>(k, v) \<in> set counts. 1 \<le> v \<Longrightarrow> \<forall>(k, v) \<in> set (counter_incr counts p). 1 \<le> v"
  by (induction counts p rule: counter_incr.induct) auto

lemma counter_update_positive:
  "\<forall>(k, v) \<in> set counts. 1 \<le> v \<Longrightarrow> \<forall>(k, v) \<in> set (counter_update counts pkgs). 1 \<le> v"
  unfolding counter_update_def
proof (induction pkgs arbitrary: counts)
  case Nil then show ?case by simp
next
  case (Cons a pkgs)
  show ?case using Cons.IH[OF counter_incr_positive[OF Cons.prems]] by simp
qed

lemma map_of_positive:
  assumes "\<forall>(k, v) \<in> set counts. 1 \<le> v"
  shows "map_of counts p = (if count_of counts p = 0 then None else Some (count_of counts p))"
proof (cases "map_of counts p")
  case None
  then show ?thesis by (simp add: count_of_def)
next
  case (Some v)
  then have "(p, v) \<in> set counts" by (rule map_of_SomeD)
  with assms have "1 \<le> v" by auto
  with Some show ?thesis by (simp add: count_of_def)
qed

lemma parse_line_no_raise: "parse_line data \<noteq> Raise e"
  by (auto simp: parse_line_def py_index_def Let_def)

lemma tally_line_emitted: "tally_line counts data = Inr (counter_update counts (emitted data))"
  using parse_line_no_raise[of data]
  by (cases "parse_line data") (auto simp: tally_line_def emitted_def counter_update_def)

lemma parse_loop_fold:
  "parse_loop counts lines = Inr (foldl (\<lambda>c d. counter_update c (emitted d)) counts lines)"
  by (induction lines arbitrary: counts) (auto simp: tally_line_emitted)

lemma count_of_fold:
  "count_of (foldl (\<lambda>c d. counter_update c (emitted d)) counts lines) p =
     count_of counts p + (\<Sum>d\<leftarrow>lines. int (count_list (emitted d) p))"
  by (induction lines arbitrary: counts) (auto simp: count_of_counter_update)

lemma fold_positive:
  "\<forall>(k, v) \<in> set counts. 1 \<le> v \<Longrightarrow>
     \<forall>(k, v) \<in> set (foldl (\<lambda>c d. counter_update c (emitted d)) counts lines). 1 \<le> v"
proof (induction lines arbitrary: counts)
  case Nil then show ?case by simp
next
  case (Cons a lines)
  show ?case using Cons.IH[OF counter_update_positive[OF Cons.prems]] by simp
qed

lemma sum_list_perm:
  fixes f :: "'a \<Rightarrow> int"
  assumes "mset xs = mset ys"
  shows "(\<Sum>d\<leftarrow>xs. f d) = (\<Sum>d\<leftarrow>ys. f d)"
proof -
  have "sum_mset (image_mset f (mset xs)) = sum_mset (image_mset f (mset ys))"
    using assms by simp
  then show ?thesis by (simp flip: sum_mset_sum_list)
qed

section \<open>Splitting the package field\<close>

lemma split_acc_nosep:
  "sep \<notin> set n \<Longrightarrow> split_acc sep acc (n @ rest) = split_acc sep (rev n @ acc) rest"
  by (induction n arbitrary: acc) auto

lemma split_acc_join:
  "names \<noteq> [] \<Longrightarrow> \<forall>n \<in> set names. sep \<notin> set n \<Longrightarrow>
     split_acc sep acc (join [sep] names) = (rev acc @ hd names) # tl names"
proof (induction "[sep]" names arbitrary: acc rule: join.induct)
  case 1
  then show ?case by simp
next
  case (2 p)
  then show ?case using split_acc_nosep[of sep p acc "[]"] by simp
next
  case (3 p q ps)
  have "split_acc sep acc (join [sep] (p # q # ps)) =
      split_acc sep (rev p @ acc) (sep # join [sep] (q # ps))"
    using 3(3) split_acc_nosep[of sep p acc "sep # join [sep] (q # ps)"] by simp
  also have "\<dots> = (rev acc @ p) # split_acc sep [] (join [sep] (q # ps))"
    by simp
  also have "split_acc sep [] (join [sep] (q # ps)) = q # ps"
    using 3(1)[of "[]"] 3(3) by simp
  finally show ?case by simp
qed

lemma split_on_join:
  "names \<noteq> [] \<Longrightarrow> \<forall>n \<in> set names. sep \<notin> set n \<Longrightarrow> split_on sep (join [sep] names) = names"
  by (simp add: split_on_def split_acc_join)

lemma set_join: "n \<in> set names \<Longrightarrow> set n \<subseteq> set (join sep names)"
  by (induction sep names rule: join.induct) auto

lemma strip_nospace: "\<forall>c \<in> set n. \<not> isspace c \<Longrightarrow> strip n = n"
proof -
  assume a: "\<forall>c \<in> set n. \<not> isspace c"
  have dw: "dropWhile isspace xs = xs" if "\<forall>c \<in> set xs. \<not> isspace c" for xs
    using that by (cases xs) simp_all
  have "dropWhile isspace n = n" using a by (rule dw)
  moreover have "dropWhile isspace (rev n) = rev n" using a by (intro dw) simp
  ultimately show ?thesis by (simp add: strip_def rstrip_def lstrip_def)
qed

lemma trailing_field_nospace: "c \<in> set (trailing_field data) \<Longrightarrow> \<not> isspace c"
  by (auto simp: trailing_field_def dest: set_takeWhileD)

lemma split_packages_join:
  assumes tf: "trailing_field data = join '','' names"
    and names: "\<forall>n \<in> set names. n \<noteq> [] \<and> CHR '','' \<notin> set n"
  shows "split_packages (trailing_field data) = names"
proof (cases "names = []")
  case True
  then show ?thesis
    by (simp add: tf split_packages_def split_on_def strip_def rstrip_def lstrip_def)
next
  case False
  have nospace: "\<forall>c \<in> set n. \<not> isspace c" if "n \<in> set names" for n
    using set_join[OF that, of "'',''"] trailing_field_nospace[of _ data] tf by auto
  then have id: "strip n = n" if "n \<in> set names" for n
    using that by (intro strip_nospace) blast
  have "split_on CHR '','' (join '','' names) = names"
    using False names by (intro split_on_join) auto
  then have "split_packages (trailing_field data) = map strip (filter (\<lambda>pkg. strip pkg \<noteq> []) names)"
    by (simp add: split_packages_def tf)
  also have "filter (\<lambda>pkg. strip pkg \<noteq> []) names = names"
    using names id by (intro filter_True) auto
  also have "map strip names = names"
    using id by (intro map_idI) auto
  finally show ?thesis .
qed

lemma count_list_distinct: "distinct xs \<Longrightarrow> count_list xs p = (if p \<in> set xs then 1 else 0)"
  by (induction xs) auto

section \<open>Ranking\<close>

lemma rank_key_le: "rank_key a \<le> rank_key b \<longleftrightarrow> row_before a b"
  by (auto simp: rank_key_def row_before_def less_eq_prod_def)

lemma sorted_ranked: "sorted_wrt row_before (sort_key rank_key counts)"
proof -
  have "sorted (map rank_key (sort_key rank_key counts))" by (rule sorted_sort_key)
  then show ?thesis by (simp add: sorted_map rank_key_le)
qed

lemma slice_to_take: "slice_to xs n = take (nat (if n < 0 then int (length xs) + n else n)) xs"
  by (simp add: slice_to_def)

section \<open>The round-trip scenario\<close>

text \<open>
  C1 (as amended). On the seven lines of the scenario \<open>parse_contents_lines\<close> returns the
  tally pkg-foo 4, pkg-bar 2, pkg-baz 4, pkg-qux 1, the keys in the order of their first
  occurrence, and \<open>top_n_packages\<close> with \<open>n = 3\<close> on that tally returns pkg-baz 4,
  pkg-foo 4, pkg-bar 2.
\<close>

theorem scenario_round_trip:
  "parse_contents_lines scenario_lines =
     Inr [(''pkg-foo'', 4), (''pkg-bar'', 2), (''pkg-baz'', 4), (''pkg-qux'', 1)]
   \<and> top_n_packages [(''pkg-foo'', 4), (''pkg-bar'', 2), (''pkg-baz'', 4), (''pkg-qux'', 1)] 3 =
     [(''pkg-baz'', 4), (''pkg-foo'', 4), (''pkg-bar'', 2)]"
  by code_simp

text \<open>
  The tally that the specification gives for the scenario (pkg-foo 3, pkg-baz 3,
  pkg-bar 2, pkg-qux 1) is not the one returned: pkg-foo stands on four of the lines.
\<close>

theorem scenario_tally_counterexample:
  "\<not> isl (parse_contents_lines scenario_lines)
   \<and> map_of (projr (parse_contents_lines scenario_lines)) \<noteq>
       map_of [(''pkg-foo'', 3), (''pkg-baz'', 3), (''pkg-bar'', 2), (''pkg-qux'', 1)]
   \<and> count_of (projr (parse_contents_lines scenario_lines)) ''pkg-foo'' = 4
   \<and> count_of (projr (parse_contents_lines scenario_lines)) ''pkg-baz'' = 4"
proof -
  have res: "parse_contents_lines scenario_lines =
      Inr [(''pkg-foo'', 4), (''pkg-bar'', 2), (''pkg-baz'', 4), (''pkg-qux'', 1)]"
    by code_simp
  have "map_of [(''pkg-foo'', 4::int), (''pkg-bar'', 2), (''pkg-baz'', 4), (''pkg-qux'', 1)] ''pkg-foo''
      \<noteq> map_of [(''pkg-foo'', 3), (''pkg-baz'', 3), (''pkg-bar'', 2), (''pkg-qux'', 1)] ''pkg-foo''"
    by simp
  then have "map_of [(''pkg-foo'', 4::int), (''pkg-bar'', 2), (''pkg-baz'', 4), (''pkg-qux'', 1)]
      \<noteq> map_of [(''pkg-foo'', 3), (''pkg-baz'', 3), (''pkg-bar'', 2), (''pkg-qux'', 1)]"
    by metis
  then show ?thesis
    by (simp add: res count_of_def)
qed

section \<open>Tallying one line\<close>

text \<open>
  C2 (as amended). Take any tally and any line that the parser does not skip (it is not
  blank, is not a comment, and has a path before its trailing field), whose trailing
  white-space-delimited field is the comma-separated list of the non-empty, comma-free
  names \<open>names\<close>. Tallying the line succeeds and raises the count of every package by
  the number of times it stands in \<open>names\<close>: by exactly 1 for each listed package and
  by 0 for every other one when the names are distinct, and by 2 for a package named
  twice.
\<close>

theorem tally_line_counts:
  assumes "\<not> skip_condition data"
    and "trailing_field data = join '','' names"
    and "\<forall>n \<in> set names. n \<noteq> [] \<and> CHR '','' \<notin> set n"
  shows "\<exists>counts'. tally_line counts data = Inr counts'
     \<and> (\<forall>p. count_of counts' p = count_of counts p + int (count_list names p))
     \<and> (distinct names \<longrightarrow>
          (\<forall>p. count_of counts' p = count_of counts p + (if p \<in> set names then 1 else 0)))"
proof -
  have "split_packages (trailing_field data) = names"
    using assms(2,3) by (rule split_packages_join)
  with assms(1) have "parse_line data = Emit names"
    by (simp only: parse_line_cases if_False)
  then have "tally_line counts data = Inr (counter_update counts names)"
    by (simp add: tally_line_def)
  then show ?thesis
    by (simp add: count_of_counter_update count_list_distinct)
qed

theorem tally_line_counts_witness:
  "\<not> skip_condition ''usr/share/doc/bar pkg-bar,pkg-baz,pkg-foo''
   \<and> trailing_field ''usr/share/doc/bar pkg-bar,pkg-baz,pkg-foo'' = join '','' [''pkg-bar'', ''pkg-baz'', ''pkg-foo'']
   \<and> (\<exists>counts'. tally_line [(''pkg-foo'', 1)] ''usr/share/doc/bar pkg-bar,pkg-baz,pkg-foo'' = Inr counts'
        \<and> count_of counts' ''pkg-foo'' = 2 \<and> count_of counts' ''pkg-bar'' = 1
        \<and> count_of counts' ''pkg-qux'' = 0)"
proof -
  let ?d = "''usr/share/doc/bar pkg-bar,pkg-baz,pkg-foo''"
  let ?n = "[''pkg-bar'', ''pkg-baz'', ''pkg-foo'']"
  have h1: "\<not> skip_condition ?d" by code_simp
  have h2: "trailing_field ?d = join '','' ?n" by code_simp
  have h3: "\<forall>n \<in> set ?n. n \<noteq> [] \<and> CHR '','' \<notin> set n" by simp
  obtain c where c: "tally_line [(''pkg-foo'', 1)] ?d = Inr c"
    and cnt: "\<forall>p. count_of c p = count_of [(''pkg-foo'', 1)] p + int (count_list ?n p)"
    using tally_line_counts[OF h1 h2 h3, of "[(''pkg-foo'', 1)]"] by blast
  have "count_of c ''pkg-foo'' = 2" "count_of c ''pkg-bar'' = 1" "count_of c ''pkg-qux'' = 0"
    unfolding cnt[rule_format] by (simp_all add: count_of_def)
  with h1 h2 c show ?thesis by blast
qed

text \<open>
  C2 as stated fails on a comment line: its trailing field is a list of one package
  name, and the tally stays as it was.
\<close>

theorem comment_line_counterexample:
  "trailing_field ''#x pkg-a'' = join '','' [''pkg-a'']
   \<and> tally_line [] ''#x pkg-a'' = Inr []
   \<and> count_of [] ''pkg-a'' = 0"
  by code_simp

text \<open>
  C8. When every piece of the comma-split trailing field of a line is empty after
  trimming, tallying the line leaves the tally as it was: no name is emitted, no count
  is created or incremented.
\<close>

theorem empty_field_unchanged:
  assumes "\<forall>p \<in> set (split_on CHR '','' (trailing_field data)). strip p = []"
  shows "tally_line counts data = Inr counts"
proof -
  have "split_packages (trailing_field data) = []"
    using assms by (simp add: split_packages_def)
  then show ?thesis
    by (simp add: tally_line_def parse_line_cases counter_update_def)
qed

theorem empty_field_unchanged_witness:
  "split_on CHR '','' (trailing_field ''path ,,'') = [[], [], []]
   \<and> tally_line [(''pkg-foo'', 1)] ''path ,,'' = Inr [(''pkg-foo'', 1)]"
proof -
  have h: "split_on CHR '','' (trailing_field ''path ,,'') = [[], [], []]" by code_simp
  then have "\<forall>p \<in> set (split_on CHR '','' (trailing_field ''path ,,'')). strip p = []"
    by (simp add: strip_def rstrip_def lstrip_def)
  from empty_field_unchanged[OF this] h show ?thesis by simp
qed

section \<open>Skipped lines\<close>

text \<open>
  C4 (as amended). The parser skips a line exactly when the trimmed line is empty, or
  starts with \<open>#\<close>, or \<open>rsplit\<close> with one split gives fewer than two parts; it
  produces no package name exactly when the line is skipped or every piece of its
  comma-split trailing field is empty after trimming; it raises no error on any line;
  and a skipped line leaves the tally as it was.
\<close>

theorem parse_line_skips:
  "(parse_line data = Skip \<longleftrightarrow> skip_condition data)
   \<and> (parse_line data = Skip \<or> parse_line data = Emit [] \<longleftrightarrow>
        skip_condition data \<or> (\<forall>p \<in> set (split_on CHR '','' (trailing_field data)). strip p = []))
   \<and> (\<forall>e. parse_line data \<noteq> Raise e)
   \<and> (skip_condition data \<longrightarrow> tally_line counts data = Inr counts)"
  by (auto simp: parse_line_cases split_packages_def tally_line_def filter_empty_conv)

theorem parse_line_skips_witness:
  "skip_condition ''# a comment'' \<and> parse_line ''# a comment'' = Skip
   \<and> tally_line [(''pkg-foo'', 1)] ''# a comment'' = Inr [(''pkg-foo'', 1)]"
proof -
  have h: "skip_condition ''# a comment''" by code_simp
  with parse_line_skips[of "''# a comment''" "[(''pkg-foo'', 1)]"] show ?thesis by simp
qed

text \<open>
  C4 as stated fails on \<open>path ,,\<close>: the parser produces no package name and raises
  no error, and the line meets none of the three conditions.
\<close>

theorem only_commas_counterexample:
  "parse_line ''path ,,'' = Emit [] \<and> tally_line [] ''path ,,'' = Inr []
   \<and> strip ''path ,,'' \<noteq> [] \<and> \<not> startswith (strip ''path ,,'') ''#''
   \<and> length (rsplit_ws (strip ''path ,,'') 1) = 2 \<and> \<not> skip_condition ''path ,,''"
  by code_simp

section \<open>The whole input\<close>

text \<open>
  C5. For every list of lines and every permutation of it, \<open>parse_contents_lines\<close>
  returns on both, and the two tallies are equal as mappings from package names to
  counts.
\<close>

theorem parse_order_independent:
  assumes "mset ys = mset xs"
  shows "\<exists>c c'. parse_contents_lines xs = Inr c \<and> parse_contents_lines ys = Inr c' \<and> map_of c' = map_of c"
proof -
  let ?c = "foldl (\<lambda>c d. counter_update c (emitted d)) [] xs"
  let ?c' = "foldl (\<lambda>c d. counter_update c (emitted d)) [] ys"
  have pos: "\<forall>(k, v) \<in> set ?c. 1 \<le> v" "\<forall>(k, v) \<in> set ?c'. 1 \<le> v"
    by (rule fold_positive, simp)+
  have "count_of ?c' p = count_of ?c p" for p
    using sum_list_perm[OF assms, of "\<lambda>d. int (count_list (emitted d) p)"]
    by (simp add: count_of_fold)
  then have "map_of ?c' p = map_of ?c p" for p
    by (simp add: map_of_positive[OF pos(1)] map_of_positive[OF pos(2)])
  then have "map_of ?c' = map_of ?c" by (rule ext)
  then show ?thesis
    by (simp add: parse_contents_lines_def parse_loop_fold)
qed

theorem parse_order_independent_witness:
  "mset [''b y,x'', ''a x''] = mset [''a x'', ''b y,x'']
   \<and> (\<exists>c c'. parse_contents_lines [''a x'', ''b y,x''] = Inr c
        \<and> parse_contents_lines [''b y,x'', ''a x''] = Inr c' \<and> map_of c' = map_of c)"
proof -
  have h: "mset [''b y,x'', ''a x''] = mset [''a x'', ''b y,x'']" by simp
  from parse_order_independent[OF h] h show ?thesis by blast
qed

text \<open>
  C9. For every list of lines \<open>parse_contents_lines\<close> returns a tally, raising
  nothing, and every count stored in it is at least 1.
\<close>

theorem parse_returns_positive:
  "\<exists>c. parse_contents_lines lines = Inr c \<and> (\<forall>(k, v) \<in> set c. 1 \<le> v)"
  using fold_positive[of "[]" lines]
  by (simp add: parse_contents_lines_def parse_loop_fold)

theorem parse_returns_positive_witness:
  "\<exists>c. parse_contents_lines [''a b'', ''# c'', ''x'', ''d b,e''] = Inr c
     \<and> c = [(''b'', 2), (''e'', 1)] \<and> 1 \<le> snd (hd c)"
proof -
  obtain c where c: "parse_contents_lines [''a b'', ''# c'', ''x'', ''d b,e''] = Inr c"
    and pos: "\<forall>(k, v) \<in> set c. 1 \<le> v"
    using parse_returns_positive[of "[''a b'', ''# c'', ''x'', ''d b,e'']"] by blast
  have "parse_contents_lines [''a b'', ''# c'', ''x'', ''d b,e''] = Inr [(''b'', 2), (''e'', 1)]"
    by code_simp
  with c have e: "c = [(''b'', 2), (''e'', 1)]" by simp
  with pos have "1 \<le> snd (hd c)" by simp
  with c e show ?thesis by blast
qed

section \<open>The ranked rows\<close>

text \<open>
  C3. For every \<open>n\<close> that is not negative and every tally, \<open>top_n_packages\<close>
  returns rows sorted by count descending and then by name ascending, \<open>min n\<close> of the
  size of the tally many; they are the first rows of a sorted arrangement of all the
  entries; \<open>n = 0\<close> gives no row, and an \<open>n\<close> that is at least the size gives all
  the entries.
\<close>

theorem top_n_sorted:
  assumes "0 \<le> n"
  shows "sorted_wrt row_before (top_n_packages counts n)
     \<and> length (top_n_packages counts n) = min (nat n) (length counts)
     \<and> top_n_packages counts 0 = []
     \<and> (\<exists>rest. mset (top_n_packages counts n @ rest) = mset counts
           \<and> sorted_wrt row_before (top_n_packages counts n @ rest))
     \<and> (int (length counts) \<le> n \<longrightarrow> mset (top_n_packages counts n) = mset counts)"
proof -
  let ?all = "sort_key rank_key counts"
  have t: "top_n_packages counts n = take (nat n) ?all"
    using assms by (simp add: top_n_packages_def slice_to_def)
  have s: "sorted_wrt row_before (take (nat n) ?all)"
    using sorted_ranked by (rule sorted_wrt_take)
  have z: "top_n_packages counts 0 = []"
    by (simp add: top_n_packages_def slice_to_def)
  have r: "mset (take (nat n) ?all @ drop (nat n) ?all) = mset counts
      \<and> sorted_wrt row_before (take (nat n) ?all @ drop (nat n) ?all)"
    using sorted_ranked[of counts] by simp
  have a: "mset (take (nat n) ?all) = mset counts" if "int (length counts) \<le> n"
    using that by simp
  from s z r a show ?thesis
    unfolding t by (intro conjI exI[of _ "drop (nat n) ?all"] impI) simp_all
qed

theorem top_n_sorted_witness:
  "(0::int) \<le> 2
   \<and> top_n_packages [(''a'', 1), (''c'', 3), (''b'', 3)] 2 = [(''b'', 3), (''c'', 3)]
   \<and> sorted_wrt row_before (top_n_packages [(''a'', 1), (''c'', 3), (''b'', 3)] 2)
   \<and> length (top_n_packages [(''a'', 1), (''c'', 3), (''b'', 3)] 2) = 2"
proof -
  have h: "(0::int) \<le> 2" by simp
  have e: "top_n_packages [(''a'', 1), (''c'', 3), (''b'', 3)] 2 = [(''b'', 3), (''c'', 3)]"
    by code_simp
  from top_n_sorted[OF h, of "[(''a'', 1), (''c'', 3), (''b'', 3)]"] h show ?thesis
    unfolding e by simp
qed

text \<open>
  C10 (as amended). For every tally and every negative \<open>n\<close>, \<open>top_n_packages\<close>
  returns the fully sorted list of all the entries (what it returns for \<open>n\<close> the size of
  the tally: a permutation of the entries, sorted by count descending and then by name
  ascending) without its last \<open>min (-n)\<close> of the size many, a list of length
  \<open>max (size + n) 0\<close>, which is empty exactly when the size is at most \<open>-n\<close>.
\<close>

theorem top_n_negative:
  assumes "n < 0"
  shows "top_n_packages counts n =
       take (length counts - min (nat (- n)) (length counts))
         (top_n_packages counts (int (length counts)))
     \<and> length (top_n_packages counts n) = nat (max (int (length counts) + n) 0)
     \<and> sorted_wrt row_before (top_n_packages counts n)
     \<and> (top_n_packages counts n = [] \<longleftrightarrow> length counts \<le> nat (- n))
     \<and> mset (top_n_packages counts (int (length counts))) = mset counts
     \<and> sorted_wrt row_before (top_n_packages counts (int (length counts)))"
proof -
  let ?all = "sort_key rank_key counts"
  have full: "top_n_packages counts (int (length counts)) = ?all"
    by (simp add: top_n_packages_def slice_to_def)
  have k: "nat (int (length counts) + n) = length counts - min (nat (- n)) (length counts)"
    using assms by auto
  have t: "top_n_packages counts n = take (length counts - min (nat (- n)) (length counts)) ?all"
    using assms by (simp add: top_n_packages_def slice_to_def k)
  have s: "sorted_wrt row_before (take (length counts - min (nat (- n)) (length counts)) ?all)"
    using sorted_ranked by (rule sorted_wrt_take)
  have l: "length (take (length counts - min (nat (- n)) (length counts)) ?all)
      = nat (max (int (length counts) + n) 0)"
    using assms by auto
  have e: "take (length counts - min (nat (- n)) (length counts)) ?all = [] \<longleftrightarrow>
      length counts \<le> nat (- n)"
  proof -
    have "take (length counts - min (nat (- n)) (length counts)) ?all = [] \<longleftrightarrow>
        length (take (length counts - min (nat (- n)) (length counts)) ?all) = 0"
      by (simp only: length_0_conv)
    also have "\<dots> \<longleftrightarrow> length counts \<le> nat (- n)"
      using assms by auto
    finally show ?thesis .
  qed
  from s l e sorted_ranked[of counts] show ?thesis
    unfolding full unfolding t by simp
qed

theorem top_n_negative_witness:
  "(- 1 :: int) < 0
   \<and> top_n_packages [(''a'', 1), (''c'', 3), (''b'', 3)] (- 1) = [(''b'', 3), (''c'', 3)]
   \<and> length (top_n_packages [(''a'', 1), (''c'', 3), (''b'', 3)] (- 1)) = 2"
proof -
  have h: "(- 1 :: int) < 0" by simp
  have e: "top_n_packages [(''a'', 1), (''c'', 3), (''b'', 3)] (- 1) = [(''b'', 3), (''c'', 3)]"
    by code_simp
  from top_n_negative[OF h, of "[(''a'', 1), (''c'', 3), (''b'', 3)]"]
  have "length (top_n_packages [(''a'', 1), (''c'', 3), (''b'', 3)] (- 1)) =
      nat (max (int (length [(''a'', 1::int), (''c'', 3), (''b'', 3)]) + (- 1)) 0)"
    by blast
  then have l: "length (top_n_packages [(''a'', 1), (''c'', 3), (''b'', 3)] (- 1)) = 2"
    by simp
  from h e l show ?thesis by blast
qed

text \<open>
  C10 as stated fails where the tally has no more than \<open>-n\<close> entries: the result is
  the empty list.
\<close>

theorem top_n_negative_counterexample:
  "(- 1 :: int) < 0 \<and> top_n_packages [(''a'', 1)] (- 1) = []"
  by code_simp

section \<open>The remote stream\<close>

lemma rstrip_slash_id: "mirror = [] \<or> last mirror \<noteq> CHR ''/'' \<Longrightarrow> rstrip_slash mirror = mirror"
  by (cases mirror rule: rev_cases) (simp_all add: rstrip_slash_def)

text \<open>
  What the function does for every network. With \<open>M\<close> the mirror without its trailing
  slashes it requests \<open>M/dists/S/C/Contents-A.gz\<close> first, and
  \<open>M/dists/S/C/Contents-A.xz\<close> only when the first request ended in a caught failure. A
  response is returned as a gzip or an LZMA stream, two caught failures give the
  \<open>RuntimeError\<close> that names both locations, and an exception that is not caught leaves
  the function at once.
\<close>

lemma open_remote_requests:
  fixes net :: "string \<Rightarrow> 'r url_result" and arch mirror suite component :: string
  defines "base \<equiv> rstrip_slash mirror @ ''/dists/'' @ suite @ ''/'' @ component"
  defines "gz \<equiv> base @ ''/Contents-'' @ arch @ ''.gz''"
  defines "xz \<equiv> base @ ''/Contents-'' @ arch @ ''.xz''"
  shows "build_contents_urls arch mirror suite component = (gz, xz)
     \<and> open_remote_contents_stream net arch mirror suite component =
         (case net gz of
            Response r \<Rightarrow> (Inr (GzipText r, gz), [gz])
          | Uncaught e \<Rightarrow> (Inl e, [gz])
          | _ \<Rightarrow> (case net xz of
                    Response r \<Rightarrow> (Inr (LzmaText r, xz), [gz, xz])
                  | Uncaught e \<Rightarrow> (Inl e, [gz, xz])
                  | _ \<Rightarrow> (Inl (RuntimeError (not_found_message arch gz xz)), [gz, xz])))"
proof -
  have urls: "build_contents_urls arch mirror suite component = (gz, xz)"
    by (simp add: build_contents_urls_def gz_def xz_def base_def Let_def)
  show ?thesis
    unfolding open_remote_contents_stream_def urls
    by (simp add: try_open_url_def split: url_result.splits)
qed

text \<open>
  C6. The claim fails on the code where the first location is unavailable by an exception
  that \<open>try_open_url\<close> does not catch. Take a network on which the request for the
  \<open>.gz\<close> location raises \<open>RemoteDisconnected\<close> and the \<open>.xz\<close> location answers 404: both
  locations are unavailable, yet the function makes the one request for the \<open>.gz\<close>
  location, never tries the \<open>.xz\<close> location, and ends with \<open>RemoteDisconnected\<close>, not
  with the \<open>RuntimeError\<close> that names both locations.
\<close>

theorem open_remote_uncaught_failure:
  "unavailable
     ((\<lambda>url. if url = ''http://m/dists/stable/main/Contents-amd64.gz''
             then Uncaught RemoteDisconnected else HTTPError 404 :: unit url_result)
        ''http://m/dists/stable/main/Contents-amd64.gz'')
   \<and> unavailable
     ((\<lambda>url. if url = ''http://m/dists/stable/main/Contents-amd64.gz''
             then Uncaught RemoteDisconnected else HTTPError 404 :: unit url_result)
        ''http://m/dists/stable/main/Contents-amd64.xz'')
   \<and> build_contents_urls ''amd64'' ''http://m'' ''stable'' ''main'' =
       (''http://m/dists/stable/main/Contents-amd64.gz'',
        ''http://m/dists/stable/main/Contents-amd64.xz'')
   \<and> open_remote_contents_stream
       (\<lambda>url. if url = ''http://m/dists/stable/main/Contents-amd64.gz''
             then Uncaught RemoteDisconnected else HTTPError 404 :: unit url_result)
       ''amd64'' ''http://m'' ''stable'' ''main'' =
       (Inl RemoteDisconnected, [''http://m/dists/stable/main/Contents-amd64.gz''])"
proof -
  let ?gz = "''http://m/dists/stable/main/Contents-amd64.gz''"
  let ?xz = "''http://m/dists/stable/main/Contents-amd64.xz''"
  let ?net = "\<lambda>url. if url = ?gz then Uncaught RemoteDisconnected
                     else HTTPError 404 :: unit url_result"
  have r: "rstrip_slash ''http://m'' = ''http://m''"
    by (simp add: rstrip_slash_def)
  have urls: "build_contents_urls ''amd64'' ''http://m'' ''stable'' ''main'' = (?gz, ?xz)"
    by (simp add: build_contents_urls_def Let_def r)
  have u: "unavailable (?net ?gz)" "unavailable (?net ?xz)"
    by (simp_all add: unavailable_def)
  have "open_remote_contents_stream ?net ''amd64'' ''http://m'' ''stable'' ''main'' =
      (Inl RemoteDisconnected, [?gz])"
    unfolding open_remote_contents_stream_def urls
    by (simp add: try_open_url_def)
  with u urls show ?thesis by blast
qed

section \<open>The table\<close>

lemma py_max_Max: "xs \<noteq> [] \<Longrightarrow> py_max xs = Inr (Max (set xs))"
proof (cases xs)
  case Nil
  assume "xs \<noteq> []"
  with Nil show ?thesis by contradiction
next
  case (Cons a list)
  have "fold max list a = Max (set (a # list))"
    by (rule Max.set_eq_fold[symmetric])
  with Cons show ?thesis by (simp only: py_max.simps)
qed

lemma dashes: "''------------'' = replicate 12 CHR ''-''"
  by code_simp

lemma length_ljust: "length s \<le> w \<Longrightarrow> length (ljust w s) = w"
  by (simp add: ljust_def)

lemma length_rjust: "length s \<le> w \<Longrightarrow> length (rjust w s) = w"
  by (simp add: rjust_def)

lemma header_line_eq:
  "header_line = [newline] @ ''Package'' @ replicate 23 CHR '' '' @ ''  '' @ replicate 10 CHR '' '' @ ''File Count''"
  by (simp add: header_line_def ljust_def rjust_def)

lemma format_table_rows:
  "rows \<noteq> [] \<Longrightarrow>
     format_table rows =
       Inr (join [newline]
              (header_line
                 # rule_line (Max (set (map (\<lambda>row. length (fst row)) rows)))
                 # map (row_line (Max (set (map (\<lambda>row. length (fst row)) rows)))
                          (Max (set (map (\<lambda>row. length (str_int (snd row))) rows)))) rows)
            @ [newline])"
  by (simp add: format_table_def py_max_Max table_lines_def)

lemma digit_chars:
  "digit_char 0 = CHR ''0''" "digit_char 1 = CHR ''1''" "digit_char 2 = CHR ''2''"
  "digit_char 3 = CHR ''3''" "digit_char 4 = CHR ''4''" "digit_char 5 = CHR ''5''"
  "digit_char 6 = CHR ''6''" "digit_char 7 = CHR ''7''" "digit_char 8 = CHR ''8''"
  "digit_char 9 = CHR ''9''" "digit_char (Suc 0) = CHR ''1''"
  by code_simp+

text \<open>
  C7 (as amended). For no rows \<open>format_table\<close> returns \<open>(no data)\<close>. For rows it
  returns, each ended by a newline: an empty line; the header \<open>Package\<close> padded on the
  right to 30 characters, two spaces and \<open>File Count\<close> padded on the left to 20, whatever
  the rows hold; a rule of as many dashes as the longest name has characters, and 12
  more; and one line per row, the name padded on the right to the length of the longest
  name, two spaces, and the count padded on the left to the length of the longest count
  string.
\<close>

theorem format_table_layout:
  "format_table [] = Inr ''(no data)''
   \<and> (rows \<noteq> [] \<longrightarrow>
        (let name_width = Max (set (map (\<lambda>row. length (fst row)) rows));
             count_width = Max (set (map (\<lambda>row. length (str_int (snd row))) rows))
         in format_table rows =
              Inr (join [newline]
                     (header_line # rule_line name_width # map (row_line name_width count_width) rows)
                   @ [newline])
            \<and> (\<forall>row \<in> set rows.
                  row_line name_width count_width row =
                    fst row @ replicate (name_width - length (fst row)) CHR '' '' @ ''  ''
                      @ replicate (count_width - length (str_int (snd row))) CHR '' ''
                      @ str_int (snd row)
                  \<and> length (row_line name_width count_width row) = name_width + 2 + count_width)
            \<and> rule_line name_width = replicate (name_width + 12) CHR ''-''))
   \<and> header_line =
        [newline] @ ''Package'' @ replicate 23 CHR '' '' @ ''  '' @ replicate 10 CHR '' ''
          @ ''File Count''
   \<and> length header_line = 53"
proof -
  let ?nw = "Max (set (map (\<lambda>row. length (fst row)) rows))"
  let ?cw = "Max (set (map (\<lambda>row. length (str_int (snd row))) rows))"
  have empty: "format_table [] = Inr ''(no data)''"
    by (simp add: format_table_def)
  have table: "format_table rows =
      Inr (join [newline] (header_line # rule_line ?nw # map (row_line ?nw ?cw) rows) @ [newline])"
    if "rows \<noteq> []"
    using that by (rule format_table_rows)
  have row: "row_line ?nw ?cw row =
        fst row @ replicate (?nw - length (fst row)) CHR '' '' @ ''  ''
          @ replicate (?cw - length (str_int (snd row))) CHR '' '' @ str_int (snd row)
      \<and> length (row_line ?nw ?cw row) = ?nw + 2 + ?cw"
    if "row \<in> set rows" for row
  proof -
    have "length (fst row) \<le> ?nw" "length (str_int (snd row)) \<le> ?cw"
      using that by (auto intro!: Max_ge)
    then show ?thesis
      by (simp add: row_line_def ljust_def rjust_def)
  qed
  have rule: "rule_line ?nw = replicate (?nw + 12) CHR ''-''"
    by (simp only: rule_line_def dashes replicate_add)
  have len: "length header_line = 53"
    by (simp add: header_line_eq)
  from empty table row rule len header_line_eq show ?thesis
    unfolding Let_def by blast
qed

theorem format_table_layout_witness:
  "[(''ab'', 7), (''c'', 12 :: int)] \<noteq> []
   \<and> format_table [(''ab'', 7), (''c'', 12)] =
       Inr (join [newline] [header_line, ''--------------'', ''ab   7'', ''c   12''] @ [newline])"
proof -
  let ?rows = "[(''ab'', 7), (''c'', 12 :: int)]"
  have ne: "?rows \<noteq> []" by simp
  have s: "str_int 7 = ''7''" "str_int 12 = ''12''"
    by code_simp+
  have nw: "Max (set (map (\<lambda>row. length (fst row)) ?rows)) = 2"
    by simp
  have cw: "Max (set (map (\<lambda>row. length (str_int (snd row))) ?rows)) = 2"
    by (simp add: s)
  have lines: "rule_line 2 = ''--------------''" "row_line 2 2 (''ab'', 7) = ''ab   7''"
    "row_line 2 2 (''c'', 12) = ''c   12''"
    by code_simp+
  from format_table_layout[of ?rows] ne
  have "format_table ?rows =
      Inr (join [newline] (header_line # rule_line 2 # map (row_line 2 2) ?rows) @ [newline])"
    unfolding Let_def nw cw by blast
  then have "format_table ?rows =
      Inr (join [newline] [header_line, ''--------------'', ''ab   7'', ''c   12''] @ [newline])"
    by (simp only: list.map lines)
  with ne show ?thesis by blast
qed

text \<open>
  C7 as stated fails on the header: with one row whose name has 8 characters and whose
  count has 11 digits the header is still 30 and 20 wide, not 8 and 11, and a rule
  stands between the header and the row.
\<close>

theorem format_table_header_counterexample:
  "format_table [(''pkg-name'', 12345678901)] =
     Inr (join [newline] [header_line, ''--------------------'', ''pkg-name  12345678901'']
          @ [newline])
   \<and> header_line =
        [newline] @ ''Package'' @ replicate 23 CHR '' '' @ ''  '' @ replicate 10 CHR '' ''
          @ ''File Count''
   \<and> header_line \<noteq> [newline] @ ljust 8 ''Package'' @ ''  '' @ rjust 11 ''File Count''
   \<and> length header_line = 53
   \<and> length ([newline] @ ljust 8 ''Package'' @ ''  '' @ rjust 11 ''File Count'') = 22"
proof -
  let ?rows = "[(''pkg-name'', 12345678901 :: int)]"
  have s: "str_int 12345678901 = ''12345678901''"
    by (simp add: str_int_def str_nat.simps digit_chars)
  have nw: "Max (set (map (\<lambda>row. length (fst row)) ?rows)) = 8"
    by simp
  have cw: "Max (set (map (\<lambda>row. length (str_int (snd row))) ?rows)) = 11"
    by (simp add: s)
  have "rule_line 8 = ''--------------------''"
    by code_simp
  moreover have "row_line 8 11 (''pkg-name'', 12345678901) = ''pkg-name  12345678901''"
    by (simp add: row_line_def ljust_def rjust_def s)
  ultimately have lines: "rule_line 8 = ''--------------------''"
    "row_line 8 11 (''pkg-name'', 12345678901) = ''pkg-name  12345678901''"
    by blast+
  have "format_table ?rows =
      Inr (join [newline] (header_line # rule_line 8 # map (row_line 8 11) ?rows) @ [newline])"
    using format_table_rows[of ?rows] unfolding nw cw by simp
  then have t: "format_table ?rows =
      Inr (join [newline] [header_line, ''--------------------'', ''pkg-name  12345678901'']
           @ [newline])"
    by (simp only: list.map lines)
  have l1: "length header_line = 53"
    by (simp add: header_line_eq)
  have l2: "length ([newline] @ ljust 8 ''Package'' @ ''  '' @ rjust 11 ''File Count'') = 22"
    by (simp add: ljust_def rjust_def)
  have ne: "header_line \<noteq> [newline] @ ljust 8 ''Package'' @ ''  '' @ rjust 11 ''File Count''"
  proof
    assume "header_line = [newline] @ ljust 8 ''Package'' @ ''  '' @ rjust 11 ''File Count''"
    then have "length header_line =
        length ([newline] @ ljust 8 ''Package'' @ ''  '' @ rjust 11 ''File Count'')"
      by (rule arg_cong)
    then show False unfolding l1 l2 by simp
  qed
  from t header_line_eq ne l1 l2 show ?thesis by blast
qed

end
